theory Spec2Isabelle
  imports Main
begin

section \<open>The Agent Run lifecycle of the ACP documentation\<close>

text \<open>
  The repository documents the lifecycle of an Agent Run in its page "Agent Run"
  (section "Run states" and the mermaid state diagram below it).  The diagram is the
  only executable-looking artefact about runs in the sources, so it is embedded edge by
  edge, in the order in which the page lists the edges.
\<close>

subsection \<open>States and events\<close>

text \<open>
  The seven states named by "Run states": \<open>created\<close>, \<open>in-progress\<close>, \<open>awaiting\<close>,
  \<open>completed\<close>, \<open>cancelling\<close>, \<open>cancelled\<close>, \<open>failed\<close>.
\<close>

datatype run_state =
  Created | InProgress | Awaiting | Completed | Cancelling | Cancelled | Failed

text \<open>
  The labels of the diagram's edges.  "Cancel requested" (from \<open>in-progress\<close>) and
  "Cancel while waiting" (from \<open>awaiting\<close>) are the one cancel operation of the page
  (\<open>/runs/{run_id}/cancel\<close>: "a run that's in-progress or awaiting can be cancelled"),
  hence one event \<open>CancelRequest\<close>.  "Error encountered" (from \<open>in-progress\<close>) and
  "Timeout or error" (from \<open>awaiting\<close>) stay two events.  \<open>Continue\<close> is the
  continuation of the paragraph after the state list: "the run could be continued, in
  which case it may return to the in-progress state from one of the terminal states".
\<close>

datatype event =
  Start | Complete | NeedInput | CancelRequest | Error
  | InputReceived | TimeoutOrError | CancelConfirmed | Continue

type_synonym edge = "run_state \<times> event \<times> run_state"

text \<open>The diagram, one triple per arrow, in the page's order.\<close>

definition diagram :: "edge list" where
  "diagram =
    [(Created, Start, InProgress),
     (InProgress, Complete, Completed),
     (InProgress, NeedInput, Awaiting),
     (InProgress, CancelRequest, Cancelling),
     (Awaiting, TimeoutOrError, Failed),
     (InProgress, Error, Failed),
     (Awaiting, InputReceived, InProgress),
     (Awaiting, CancelRequest, Cancelling),
     (Cancelling, CancelConfirmed, Cancelled)]"

text \<open>The diagram's initial state (\<open>[*] --> created\<close>).\<close>

definition initial :: run_state where
  "initial = Created"

text \<open>The states with an arrow to \<open>[*]\<close>, in the page's order.\<close>

fun terminal :: "run_state \<Rightarrow> bool" where
  "terminal Cancelled = True"
| "terminal Completed = True"
| "terminal Failed = True"
| "terminal _ = False"

text \<open>
  "Depending on agent implementation, the run could be continued": the continuation
  edges exist only for an agent whose implementation supports them.
\<close>

definition continuation :: "bool \<Rightarrow> edge list" where
  "continuation resumable =
    (if resumable
     then [(Cancelled, Continue, InProgress),
           (Completed, Continue, InProgress),
           (Failed, Continue, InProgress)]
     else [])"

definition edges :: "bool \<Rightarrow> edge list" where
  "edges resumable = diagram @ continuation resumable"

text \<open>Following an arrow: the first edge from the state with the event's label.\<close>

fun lookup_edge :: "edge list \<Rightarrow> run_state \<Rightarrow> event \<Rightarrow> run_state option" where
  "lookup_edge [] s e = None"
| "lookup_edge ((a, ev, b) # rest) s e =
    (if a = s \<and> ev = e then Some b else lookup_edge rest s e)"

definition next_state :: "bool \<Rightarrow> run_state \<Rightarrow> event \<Rightarrow> run_state option" where
  "next_state resumable s e = lookup_edge (edges resumable) s e"

text \<open>
  An event with no arrow from the current state moves nothing: the diagram has no other
  way to change the state (and the design's section 4.1 has such an event leave the state
  unchanged).
\<close>

definition feed :: "bool \<Rightarrow> run_state \<Rightarrow> event \<Rightarrow> run_state" where
  "feed resumable s e = (case next_state resumable s e of Some s' \<Rightarrow> s' | None \<Rightarrow> s)"

text \<open>The states a run goes through under a sequence of events, the first one included.\<close>

fun trace :: "bool \<Rightarrow> run_state \<Rightarrow> event list \<Rightarrow> run_state list" where
  "trace resumable s [] = [s]"
| "trace resumable s (e # es) = s # trace resumable (feed resumable s e) es"

text \<open>
  The same runs as a relation over the edges, for the statements that speak of "at most
  one successor": an event either follows an edge, or no edge carries it and the state
  stays.
\<close>

inductive reaches :: "bool \<Rightarrow> run_state \<Rightarrow> event list \<Rightarrow> run_state \<Rightarrow> bool"
  for resumable :: bool where
  reaches_nil: "reaches resumable s [] s"
| reaches_edge:
    "(s, e, s') \<in> set (edges resumable) \<Longrightarrow> reaches resumable s' es t
      \<Longrightarrow> reaches resumable s (e # es) t"
| reaches_stay:
    "(\<forall>s'. (s, e, s') \<notin> set (edges resumable)) \<Longrightarrow> reaches resumable s es t
      \<Longrightarrow> reaches resumable s (e # es) t"

subsection \<open>The transition table as the specification words it\<close>

text \<open>
  The table of the design's section 4.1, row by row, kept apart from \<open>diagram\<close> so that
  the two can be compared.
\<close>

definition spec_table :: "edge list" where
  "spec_table =
    [(Created, Start, InProgress),
     (InProgress, Complete, Completed),
     (InProgress, NeedInput, Awaiting),
     (InProgress, CancelRequest, Cancelling),
     (InProgress, Error, Failed),
     (Awaiting, InputReceived, InProgress),
     (Awaiting, TimeoutOrError, Failed),
     (Awaiting, CancelRequest, Cancelling),
     (Cancelling, CancelConfirmed, Cancelled)]"

text \<open>The last row: \<open>completed/cancelled/failed -continue (if agent supports)-> in-progress\<close>.\<close>

definition spec_continue_from :: "run_state list" where
  "spec_continue_from = [Completed, Cancelled, Failed]"

definition spec_edges :: "bool \<Rightarrow> edge list" where
  "spec_edges supported =
    spec_table @
    (if supported then map (\<lambda>s. (s, Continue, InProgress)) spec_continue_from else [])"

section \<open>The run controller of the design\<close>

text \<open>
  The sources stop at the state diagram: the Run record, the state machine's error
  replies, the controller's operations, the store, the expiration manager and the
  registry are described by the design document only.  Each definition of this section is
  modelled from the design's words and says which words.
\<close>

subsection \<open>Data model (design section 3)\<close>

type_synonym payload = string

text \<open>
  Modelled from the spec: the statefulness of an agent (section 3, and the three kinds of
  agents of the Agent Run page): \<open>stateless | serializable | non-serializable\<close>.
\<close>

datatype statefulness = Stateless | Serializable | NonSerializable

text \<open>
  Modelled from the spec: the error taxonomy of section 7.  \<open>CreateRejected\<close> is not in
  the taxonomy: the design has \<open>create\<close> validate the agent and the input but names no
  error for a failed validation; this constructor stands for it.
\<close>

datatype error_kind =
  InvalidTransition | NotFound | Expired | RunNotResumable | LostContext
  | AgentError payload | CreateRejected

text \<open>
  Modelled from the spec: the Run entity of section 3, field by field (\<open>ident\<close> is its
  \<open>id\<close>).  The input is the "current accumulated input" of section 4.2, oldest first.
\<close>

record run =
  ident :: nat
  state :: run_state
  agentName :: string
  input :: "payload list"
  "output" :: "payload option"
  awaitingRequest :: "payload option"
  error :: "error_kind option"
  statefulness :: statefulness
  expiresAt :: "nat option"
  createdAt :: nat
  updatedAt :: nat

text \<open>
  Modelled from the spec: what an Agent declares (section 6): its statefulness, its
  \<open>resumable\<close> flag, and the input shape it accepts (section 4.2, \<open>create\<close>).
\<close>

record agent =
  declared_statefulness :: statefulness
  declared_resumable :: bool
  accepts_input :: "payload \<Rightarrow> bool"

text \<open>
  Modelled from the spec: the RunStore (a keyed storage of Run records), the registered
  agents, the identifier generator and the configured time-to-live.
\<close>

record system =
  store :: "nat \<rightharpoonup> run"
  agents :: "string \<rightharpoonup> agent"
  next_id :: nat
  ttl :: nat

subsection \<open>RunStateMachine (design section 4.1)\<close>

text \<open>
  Modelled from the spec: the RunStateMachine, "given current state + event, yields next
  state or rejects".  The nine rows of the table are looked up in \<open>spec_table\<close>; the
  tenth row (continue, from a terminal state) yields \<open>in-progress\<close> when the agent
  declares itself resumable and \<open>RunNotResumable\<close> otherwise; "any event not listed for
  the current state is rejected with an InvalidTransition error".
\<close>

definition transition :: "bool \<Rightarrow> run_state \<Rightarrow> event \<Rightarrow> error_kind + run_state" where
  "transition supported s e =
    (if e = Continue \<and> s \<in> set spec_continue_from
     then (if supported then Inr InProgress else Inl RunNotResumable)
     else (case lookup_edge spec_table s e of
             Some s' \<Rightarrow> Inr s'
           | None \<Rightarrow> Inl InvalidTransition))"

text \<open>
  An event is listed for a state when some row of the table (the continuation row
  included, whatever the agent supports) has that state and that event.
\<close>

definition listed :: "run_state \<Rightarrow> event \<Rightarrow> bool" where
  "listed s e = ((s, e) \<in> set (map (\<lambda>(a, ev, b). (a, ev)) (spec_edges True)))"

subsection \<open>ExpirationManager (design section 4.3), the part that sets the deadline\<close>

text \<open>
  Modelled from the spec: the continuable states of section 4.3 (\<open>created\<close>,
  \<open>in-progress\<close>, \<open>awaiting\<close>).
\<close>

definition continuable :: "run_state \<Rightarrow> bool" where
  "continuable s = (s = Created \<or> s = InProgress \<or> s = Awaiting)"

text \<open>
  Modelled from the spec: \<open>expiresAt\<close> on entry into a state.  Section 4.3: for a
  non-serializable run, entry into a continuable state sets \<open>expiresAt = now + ttl\<close> and
  entry into a terminal state clears it.  Section 3: \<open>expiresAt\<close> is "set only for
  non-serializable runs while in a continuable state", which decides the one state
  section 4.3 leaves open, \<open>cancelling\<close>: the deadline is not set there.
\<close>

definition expiry_on_entry :: "nat \<Rightarrow> nat \<Rightarrow> statefulness \<Rightarrow> run_state \<Rightarrow> nat option" where
  "expiry_on_entry lifetime now sf s =
    (if sf = NonSerializable \<and> continuable s then Some (now + lifetime) else None)"

subsection \<open>RunController (design section 4.2)\<close>

text \<open>
  Modelled from the spec: an event together with what it carries: the output of
  \<open>produced-output\<close>, the request of \<open>needs-input\<close>, the cause of a failure, the input of
  a resume.
\<close>

datatype action =
  DoStart
  | DoComplete payload
  | DoNeedInput payload
  | DoCancelRequest
  | DoError error_kind
  | DoInputReceived payload
  | DoTimeoutOrError error_kind
  | DoCancelConfirmed
  | DoContinue payload

fun event_of :: "action \<Rightarrow> event" where
  "event_of DoStart = Start"
| "event_of (DoComplete out) = Complete"
| "event_of (DoNeedInput req) = NeedInput"
| "event_of DoCancelRequest = CancelRequest"
| "event_of (DoError c) = Error"
| "event_of (DoInputReceived i) = InputReceived"
| "event_of (DoTimeoutOrError c) = TimeoutOrError"
| "event_of DoCancelConfirmed = CancelConfirmed"
| "event_of (DoContinue i) = Continue"

text \<open>
  Modelled from the spec: the fields an accepted transition writes.  \<open>output\<close> is "set
  only on transition into completed"; \<open>awaitingRequest\<close> is "present only in state
  awaiting" and \<open>error\<close> "present only in state failed", so each is written on entry and
  cleared on leaving; the input accumulates.  A field the design does not tie to the
  transition keeps its value.
\<close>

fun new_input :: "action \<Rightarrow> payload list \<Rightarrow> payload list" where
  "new_input (DoInputReceived i) old = old @ [i]"
| "new_input (DoContinue i) old = old @ [i]"
| "new_input _ old = old"

fun new_output :: "action \<Rightarrow> payload option \<Rightarrow> payload option" where
  "new_output (DoComplete out) old = Some out"
| "new_output (DoContinue i) old = None"
| "new_output _ old = old"

fun new_awaitingRequest :: "action \<Rightarrow> payload option \<Rightarrow> payload option" where
  "new_awaitingRequest (DoNeedInput req) old = Some req"
| "new_awaitingRequest (DoInputReceived i) old = None"
| "new_awaitingRequest (DoTimeoutOrError c) old = None"
| "new_awaitingRequest DoCancelRequest old = None"
| "new_awaitingRequest _ old = old"

fun new_error :: "action \<Rightarrow> error_kind option \<Rightarrow> error_kind option" where
  "new_error (DoError c) old = Some c"
| "new_error (DoTimeoutOrError c) old = Some c"
| "new_error (DoContinue i) old = None"
| "new_error _ old = old"

text \<open>
  Modelled from the spec: the controller applying one event to a Run: the state "mutated
  only by RunController through validated transitions"; a rejected event yields the
  state machine's error and no new record.
\<close>

definition fire :: "nat \<Rightarrow> bool \<Rightarrow> nat \<Rightarrow> action \<Rightarrow> run \<Rightarrow> error_kind + run" where
  "fire lifetime supported now a r =
    (case transition supported (state r) (event_of a) of
       Inl err \<Rightarrow> Inl err
     | Inr s' \<Rightarrow>
         Inr (r\<lparr>state := s',
                input := new_input a (input r),
                output := new_output a (output r),
                awaitingRequest := new_awaitingRequest a (awaitingRequest r),
                error := new_error a (error r),
                expiresAt := expiry_on_entry lifetime now (statefulness r) s',
                updatedAt := now\<rparr>))"

text \<open>
  Modelled from the spec: whether the owning agent declares itself resumable (section
  4.1: "only explicitly resumable agents").
\<close>

definition supports_continuation :: "system \<Rightarrow> run \<Rightarrow> bool" where
  "supports_continuation sys r =
    (case agents sys (agentName r) of
       None \<Rightarrow> False
     | Some ag \<Rightarrow> declared_resumable ag)"

text \<open>
  Modelled from the spec: "every accepted transition is persisted to RunStore before
  being observable to callers"; a rejected one leaves the store as it was.
\<close>

definition apply_action ::
  "nat \<Rightarrow> nat \<Rightarrow> action \<Rightarrow> run \<Rightarrow> system \<Rightarrow> (error_kind + run) \<times> system" where
  "apply_action now rid a r sys =
    (case fire (ttl sys) (supports_continuation sys r) now a r of
       Inl err \<Rightarrow> (Inl err, sys)
     | Inr r' \<Rightarrow> (Inr r', sys\<lparr>store := (store sys)(rid \<mapsto> r')\<rparr>))"

subsection \<open>ExpirationManager, the part that enforces the deadline\<close>

text \<open>
  Modelled from the spec: a non-serializable run "that has exceeded expiresAt".
\<close>

definition is_expired :: "nat \<Rightarrow> run \<Rightarrow> bool" where
  "is_expired now r =
    (statefulness r = NonSerializable \<and>
     (case expiresAt r of None \<Rightarrow> False | Some t \<Rightarrow> t < now))"

text \<open>
  Modelled from the spec: forcing a run to \<open>failed\<close> with an error kind, "unless already
  terminal" (sections 4.3 and 4.4); the terminal state clears \<open>expiresAt\<close>.
\<close>

definition force_failed :: "nat \<Rightarrow> error_kind \<Rightarrow> run \<Rightarrow> run" where
  "force_failed now kind r =
    (if terminal (state r) then r
     else r\<lparr>state := Failed, awaitingRequest := None, error := Some kind,
            expiresAt := None, updatedAt := now\<rparr>)"

text \<open>
  Modelled from the spec: the lookup of \<open>get\<close>, \<open>resume\<close> and \<open>cancel\<close>: \<open>NotFound\<close> for
  an unknown run, and the lazy expiry check of sections 3 and 4.3: past its deadline the
  run is marked \<open>failed\<close> (section 7) and the lookup fails with \<open>Expired\<close>.
\<close>

definition lookup :: "nat \<Rightarrow> nat \<Rightarrow> system \<Rightarrow> (error_kind + run) \<times> system" where
  "lookup now rid sys =
    (case store sys rid of
       None \<Rightarrow> (Inl NotFound, sys)
     | Some r \<Rightarrow>
         if is_expired now r
         then (Inl Expired, sys\<lparr>store := (store sys)(rid \<mapsto> force_failed now Expired r)\<rparr>)
         else (Inr r, sys))"

text \<open>
  Modelled from the spec: the background sweep: every run whose deadline has passed is
  forced to \<open>failed\<close> with error kind \<open>Expired\<close>.
\<close>

definition sweep :: "nat \<Rightarrow> system \<Rightarrow> system" where
  "sweep now sys =
    sys\<lparr>store := (\<lambda>rid. map_option
       (\<lambda>r. if is_expired now r then force_failed now Expired r else r) (store sys rid))\<rparr>"

subsection \<open>The operations\<close>

text \<open>
  Modelled from the spec: \<open>create(agentName, input)\<close>: validates that the agent exists
  and accepts the input, creates the Run in \<open>created\<close>, immediately applies \<open>start\<close> and
  returns the Run.
\<close>

definition create :: "nat \<Rightarrow> string \<Rightarrow> payload \<Rightarrow> system \<Rightarrow> (error_kind + run) \<times> system" where
  "create now name inp sys =
    (case agents sys name of
       None \<Rightarrow> (Inl CreateRejected, sys)
     | Some ag \<Rightarrow>
         if \<not> accepts_input ag inp then (Inl CreateRejected, sys)
         else
           apply_action now (next_id sys) DoStart
             \<lparr>ident = next_id sys, state = Created, agentName = name, input = [inp],
              output = None, awaitingRequest = None, error = None,
              statefulness = declared_statefulness ag,
              expiresAt = expiry_on_entry (ttl sys) now (declared_statefulness ag) Created,
              createdAt = now, updatedAt = now\<rparr>
             (sys\<lparr>next_id := Suc (next_id sys)\<rparr>))"

text \<open>
  Modelled from the spec: \<open>get(runId)\<close>: a read-only snapshot, "still subject to the
  lazy-expiry check".
\<close>

definition get :: "nat \<Rightarrow> nat \<Rightarrow> system \<Rightarrow> (error_kind + run) \<times> system" where
  "get now rid sys = lookup now rid sys"

text \<open>
  Modelled from the spec: \<open>resume(runId, input)\<close>: \<open>NotFound\<close>, then \<open>Expired\<close>, then
  \<open>InvalidTransition\<close> "unless current state is awaiting (or a resumable terminal
  state)"; otherwise applies \<open>input-received\<close> (or \<open>continue\<close>).
\<close>

definition resume :: "nat \<Rightarrow> nat \<Rightarrow> payload \<Rightarrow> system \<Rightarrow> (error_kind + run) \<times> system" where
  "resume now rid inp sys =
    (case lookup now rid sys of
       (Inl err, sys') \<Rightarrow> (Inl err, sys')
     | (Inr r, sys') \<Rightarrow>
         if state r = Awaiting then apply_action now rid (DoInputReceived inp) r sys'
         else if terminal (state r) \<and> supports_continuation sys' r
         then apply_action now rid (DoContinue inp) r sys'
         else (Inl InvalidTransition, sys'))"

text \<open>
  Modelled from the spec: \<open>cancel(runId)\<close>: \<open>NotFound\<close>/\<open>Expired\<close> as above,
  \<open>InvalidTransition\<close> "unless state is in-progress or awaiting"; applies
  \<open>cancel-request\<close> and returns the Run in \<open>cancelling\<close>.
\<close>

definition cancel :: "nat \<Rightarrow> nat \<Rightarrow> system \<Rightarrow> (error_kind + run) \<times> system" where
  "cancel now rid sys =
    (case lookup now rid sys of
       (Inl err, sys') \<Rightarrow> (Inl err, sys')
     | (Inr r, sys') \<Rightarrow>
         if state r = InProgress \<or> state r = Awaiting
         then apply_action now rid DoCancelRequest r sys'
         else (Inl InvalidTransition, sys'))"

text \<open>
  Modelled from the spec: the agent invocation contract: the agent signals
  \<open>produced-output\<close>, \<open>needs-input\<close>, \<open>raised-error\<close> or acknowledges the cancellation, and
  the controller "maps each signal deterministically to the table".  A signal is not a
  read, resume or cancel, so it goes without the lazy expiry check.
\<close>

definition signal :: "nat \<Rightarrow> nat \<Rightarrow> action \<Rightarrow> system \<Rightarrow> (error_kind + run) \<times> system" where
  "signal now rid a sys =
    (case store sys rid of
       None \<Rightarrow> (Inl NotFound, sys)
     | Some r \<Rightarrow> apply_action now rid a r sys)"

text \<open>
  Modelled from the spec: the RunRegistry after a process restart (section 4.4): a
  non-serializable run found \<open>in-progress\<close> or \<open>awaiting\<close> is marked \<open>failed\<close> with error
  kind \<open>LostContext\<close>.
\<close>

definition restart :: "nat \<Rightarrow> system \<Rightarrow> system" where
  "restart now sys =
    sys\<lparr>store := (\<lambda>rid. map_option
       (\<lambda>r. if statefulness r = NonSerializable \<and> (state r = InProgress \<or> state r = Awaiting)
            then force_failed now LostContext r else r) (store sys rid))\<rparr>"

text \<open>
  Everything that can happen to the system: the four requests of section 6, the four
  agent signals of section 4.2, a sweep and a restart; each at a time.  \<open>perform\<close> is
  what an operation does as sections 4.2 to 4.4 word it, which is what it does whenever
  the controller serves it (\<open>serve\<close> below); sequences of performed operations include
  every sequence the controller serves (lemma \<open>serve_all_admitted\<close>).
\<close>

datatype operation =
  Create string payload
  | Resume nat payload
  | Cancel nat
  | Get nat
  | ProducedOutput nat payload
  | NeedsInput nat payload
  | RaisedError nat payload
  | CancelAcknowledged nat
  | Sweep
  | Restart

fun perform :: "nat \<Rightarrow> operation \<Rightarrow> system \<Rightarrow> system" where
  "perform now (Create name inp) sys = snd (create now name inp sys)"
| "perform now (Resume rid inp) sys = snd (resume now rid inp sys)"
| "perform now (Cancel rid) sys = snd (cancel now rid sys)"
| "perform now (Get rid) sys = snd (get now rid sys)"
| "perform now (ProducedOutput rid out) sys = snd (signal now rid (DoComplete out) sys)"
| "perform now (NeedsInput rid req) sys = snd (signal now rid (DoNeedInput req) sys)"
| "perform now (RaisedError rid e) sys = snd (signal now rid (DoError (AgentError e)) sys)"
| "perform now (CancelAcknowledged rid) sys = snd (signal now rid DoCancelConfirmed sys)"
| "perform now Sweep sys = sweep now sys"
| "perform now Restart sys = restart now sys"

fun perform_all :: "(nat \<times> operation) list \<Rightarrow> system \<Rightarrow> system" where
  "perform_all [] sys = sys"
| "perform_all ((now, op) # rest) sys = perform_all rest (perform now op sys)"

text \<open>
  Modelled from the spec: the consistency invariant of section 3 on one Run.
\<close>

definition consistent :: "run \<Rightarrow> bool" where
  "consistent r =
    ((awaitingRequest r \<noteq> None) = (state r = Awaiting)
     \<and> (error r \<noteq> None) = (state r = Failed)
     \<and> (output r = None \<or> state r = Completed))"

text \<open>The invariant on every stored Run, for the proofs.\<close>

definition all_consistent :: "system \<Rightarrow> bool" where
  "all_consistent sys = (\<forall>rid r. store sys rid = Some r \<longrightarrow> consistent r)"


subsection \<open>The restriction on stateless runs (design section 3)\<close>


text \<open>The run an operation addresses, if it addresses one.\<close>

fun target :: "operation \<Rightarrow> nat option" where
  "target (Create name inp) = None"
| "target (Resume rid inp) = Some rid"
| "target (Cancel rid) = Some rid"
| "target (Get rid) = Some rid"
| "target (ProducedOutput rid out) = Some rid"
| "target (NeedsInput rid req) = Some rid"
| "target (RaisedError rid e) = Some rid"
| "target (CancelAcknowledged rid) = Some rid"
| "target Sweep = None"
| "target Restart = None"

text \<open>
  The operations that start an edge off that path: a resume ("no resumption"), a
  \<open>needs-input\<close> signal ("no awaiting"), and a cancel (\<open>cancelling\<close> is not on the path).
\<close>

fun off_path :: "operation \<Rightarrow> bool" where
  "off_path (Resume rid inp) = True"
| "off_path (Cancel rid) = True"
| "off_path (NeedsInput rid req) = True"
| "off_path _ = False"

text \<open>
  Modelled from the spec: section 3, "A stateless run's only reachable states are
  \<open>created \<rightarrow> in-progress \<rightarrow> {completed, failed}\<close> (no awaiting, no resumption)", and the
  Agent Run page, for which the run of a stateless agent "represents only a single call
  and its result".  The design states the restriction and names no mechanism for it;
  here the controller refuses an operation off the path when the run it addresses is
  stateless, before the operation does anything.
\<close>

definition refused :: "system \<Rightarrow> operation \<Rightarrow> bool" where
  "refused sys op =
    (off_path op \<and>
     (case target op of
        None \<Rightarrow> False
      | Some rid \<Rightarrow>
          (case store sys rid of
             None \<Rightarrow> False
           | Some r \<Rightarrow> statefulness r = Stateless)))"

text \<open>What an operation replies to its caller; a sweep and a restart have no caller.\<close>

fun answer :: "nat \<Rightarrow> operation \<Rightarrow> system \<Rightarrow> (error_kind + run) option" where
  "answer now (Create name inp) sys = Some (fst (create now name inp sys))"
| "answer now (Resume rid inp) sys = Some (fst (resume now rid inp sys))"
| "answer now (Cancel rid) sys = Some (fst (cancel now rid sys))"
| "answer now (Get rid) sys = Some (fst (get now rid sys))"
| "answer now (ProducedOutput rid out) sys = Some (fst (signal now rid (DoComplete out) sys))"
| "answer now (NeedsInput rid req) sys = Some (fst (signal now rid (DoNeedInput req) sys))"
| "answer now (RaisedError rid e) sys = Some (fst (signal now rid (DoError (AgentError e)) sys))"
| "answer now (CancelAcknowledged rid) sys = Some (fst (signal now rid DoCancelConfirmed sys))"
| "answer now Sweep sys = None"
| "answer now Restart sys = None"

text \<open>
  Modelled from the spec: the controller serving an operation: a refused one is
  answered as an event that is not listed for the run (\<open>InvalidTransition\<close>, "run state
  unchanged"), any other one is performed as sections 4.2 to 4.4 word it.
\<close>

definition serve ::
  "nat \<Rightarrow> operation \<Rightarrow> system \<Rightarrow> (error_kind + run) option \<times> system" where
  "serve now op sys =
    (if refused sys op then (Some (Inl InvalidTransition), sys)
     else (answer now op sys, perform now op sys))"

fun serve_all :: "(nat \<times> operation) list \<Rightarrow> system \<Rightarrow> system" where
  "serve_all [] sys = sys"
| "serve_all ((now, op) # rest) sys = serve_all rest (snd (serve now op sys))"

text \<open>The operations of a sequence that are not refused when their turn comes.\<close>

fun admitted :: "(nat \<times> operation) list \<Rightarrow> system \<Rightarrow> (nat \<times> operation) list" where
  "admitted [] sys = []"
| "admitted ((now, op) # rest) sys =
    (if refused sys op then admitted rest sys
     else (now, op) # admitted rest (perform now op sys))"



subsection \<open>A small installation\<close>

text \<open>
  Three agents, one of each statefulness, after the scenarios of the design's section 8
  (\<open>echo\<close>, \<open>needs-name\<close>) and the Agent Run page's example of a non-serializable
  resource (a running notebook kernel); a time-to-live of one second; no run yet.
\<close>

definition echo :: agent where
  "echo = \<lparr>declared_statefulness = Stateless, declared_resumable = False,
            accepts_input = (\<lambda>i. True)\<rparr>"

definition needs_name :: agent where
  "needs_name = \<lparr>declared_statefulness = Serializable, declared_resumable = True,
                  accepts_input = (\<lambda>i. True)\<rparr>"

definition notebook :: agent where
  "notebook = \<lparr>declared_statefulness = NonSerializable, declared_resumable = False,
                accepts_input = (\<lambda>i. True)\<rparr>"

definition installation :: system where
  "installation =
    \<lparr>store = Map.empty,
     agents = [''echo'' \<mapsto> echo, ''needs-name'' \<mapsto> needs_name, ''notebook'' \<mapsto> notebook],
     next_id = 0,
     ttl = 1\<rparr>"

text \<open>
  The first scenario of section 8: a run of \<open>echo\<close> with input \<open>hi\<close>, completed with
  output \<open>hi\<close>; and its record.
\<close>

definition echo_done :: system where
  "echo_done =
    perform_all [(0, Create ''echo'' ''hi''), (1, ProducedOutput 0 ''hi'')] installation"

definition echo_done_run :: run where
  "echo_done_run =
    \<lparr>ident = 0, state = Completed, agentName = ''echo'', input = [''hi''],
     output = Some ''hi'', awaitingRequest = None, error = None,
     statefulness = Stateless, expiresAt = None, createdAt = 0, updatedAt = 1\<rparr>"

text \<open>
  A run of the non-serializable agent that asked for input at time 1, so that it
  expires after time 2; and its record.
\<close>

definition notebook_waiting :: system where
  "notebook_waiting =
    perform_all [(0, Create ''notebook'' ''x''), (1, NeedsInput 0 ''name'')] installation"

definition notebook_waiting_run :: run where
  "notebook_waiting_run =
    \<lparr>ident = 0, state = Awaiting, agentName = ''notebook'', input = [''x''],
     output = None, awaitingRequest = Some ''name'', error = None,
     statefulness = NonSerializable, expiresAt = Some 2, createdAt = 0, updatedAt = 1\<rparr>"







section \<open>Properties of the state diagram\<close>

lemma lookup_edge_mem:
  "lookup_edge xs s e = Some t \<Longrightarrow> (s, e, t) \<in> set xs"
  by (induction xs s e rule: lookup_edge.induct) (auto split: if_splits)

lemma edges_functional:
  "(s, e, t) \<in> set (edges r) \<Longrightarrow> (s, e, t') \<in> set (edges r) \<Longrightarrow> t = t'"
  by (cases r) (auto simp: edges_def diagram_def continuation_def)

lemma edges_eq_spec: "set (edges r) = set (spec_edges r)"
  by (auto simp: edges_def diagram_def continuation_def spec_edges_def spec_table_def
      spec_continue_from_def)

lemma feed_cases:
  "feed r s e = s \<or> (s, e, feed r s e) \<in> set (edges r)"
  by (auto simp: feed_def next_state_def split: option.splits dest: lookup_edge_mem)

lemma trace_nonempty: "trace r s es \<noteq> []"
  by (cases es) simp_all

lemma hd_trace: "hd (trace r s es) = s"
  by (cases es) simp_all

lemma trace_steps:
  "(a, b) \<in> set (zip (trace r s es) (tl (trace r s es)))
    \<Longrightarrow> a = b \<or> (\<exists>e. (a, e, b) \<in> set (edges r))"
proof (induction es arbitrary: s)
  case Nil
  then show ?case by simp
next
  case (Cons e es)
  obtain rest where rest: "trace r (feed r s e) es = feed r s e # rest"
    by (cases es) simp_all
  from Cons.prems have
    "(a, b) = (s, feed r s e) \<or>
     (a, b) \<in> set (zip (trace r (feed r s e) es) (tl (trace r (feed r s e) es)))"
    using rest by auto
  then show ?case
  proof
    assume "(a, b) = (s, feed r s e)"
    then show ?thesis using feed_cases [of r s e] by auto
  next
    assume "(a, b) \<in> set (zip (trace r (feed r s e) es) (tl (trace r (feed r s e) es)))"
    then show ?thesis by (rule Cons.IH)
  qed
qed

text \<open>
  C1.  Whatever events are applied to a run, and whether or not its agent supports
  continuation: the run starts in \<open>created\<close>, every state it goes through is one of
  the seven, and every change of state from one step to the next follows a row of the
  transition table of section 4.1 (the continuation row only when the agent supports
  it).  The diagram has exactly the table's edges, so no other change is possible.
\<close>

theorem state_changes_follow_table:
  "hd (trace resumable initial es) = Created
   \<and> set (trace resumable initial es)
       \<subseteq> {Created, InProgress, Awaiting, Completed, Cancelling, Cancelled, Failed}
   \<and> (\<forall>p \<in> set (zip (trace resumable initial es) (tl (trace resumable initial es))).
         fst p \<noteq> snd p \<longrightarrow> (\<exists>e. (fst p, e, snd p) \<in> set (spec_edges resumable)))
   \<and> set (edges resumable) = set (spec_edges resumable)"
proof (intro conjI)
  show "hd (trace resumable initial es) = Created"
    by (simp add: hd_trace initial_def)
  show "set (trace resumable initial es)
       \<subseteq> {Created, InProgress, Awaiting, Completed, Cancelling, Cancelled, Failed}"
  proof
    fix x assume "x \<in> set (trace resumable initial es)"
    show "x \<in> {Created, InProgress, Awaiting, Completed, Cancelling, Cancelled, Failed}"
      by (cases x) simp_all
  qed
  show "\<forall>p \<in> set (zip (trace resumable initial es) (tl (trace resumable initial es))).
         fst p \<noteq> snd p \<longrightarrow> (\<exists>e. (fst p, e, snd p) \<in> set (spec_edges resumable))"
  proof (intro ballI impI)
    fix p
    assume mem: "p \<in> set (zip (trace resumable initial es) (tl (trace resumable initial es)))"
      and ne: "fst p \<noteq> snd p"
    from mem have "(fst p, snd p)
        \<in> set (zip (trace resumable initial es) (tl (trace resumable initial es)))"
      by simp
    from trace_steps [OF this] ne
    show "\<exists>e. (fst p, e, snd p) \<in> set (spec_edges resumable)"
      by (simp add: edges_eq_spec)
  qed
  show "set (edges resumable) = set (spec_edges resumable)"
    by (rule edges_eq_spec)
qed

theorem state_changes_follow_table_witness:
  "trace True initial [Start, NeedInput, Complete, CancelRequest, CancelConfirmed, Continue]
     = [Created, InProgress, Awaiting, Awaiting, Cancelling, Cancelled, InProgress]
   \<and> (\<exists>e. (Cancelled, e, InProgress) \<in> set (spec_edges True))"
proof -
  let ?es = "[Start, NeedInput, Complete, CancelRequest, CancelConfirmed, Continue]"
  have t: "trace True initial ?es
     = [Created, InProgress, Awaiting, Awaiting, Cancelling, Cancelled, InProgress]"
    by (simp add: initial_def feed_def next_state_def edges_def diagram_def continuation_def)
  have mem: "(Cancelled, InProgress)
      \<in> set (zip (trace True initial ?es) (tl (trace True initial ?es)))"
    unfolding t by simp
  have all: "\<forall>p \<in> set (zip (trace True initial ?es) (tl (trace True initial ?es))).
        fst p \<noteq> snd p \<longrightarrow> (\<exists>e. (fst p, e, snd p) \<in> set (spec_edges True))"
    using state_changes_follow_table [of True ?es] by (elim conjE)
  have ex: "\<exists>e. (Cancelled, e, InProgress) \<in> set (spec_edges True)"
    using bspec [OF all mem] by simp
  from t ex show ?thesis by (rule conjI)
qed

inductive_cases reaches_NilE: "reaches r s [] t"

inductive_cases reaches_ConsE: "reaches r s (e # es) t"

lemma reaches_deterministic:
  "reaches r s es t \<Longrightarrow> reaches r s es t' \<Longrightarrow> t = t'"
proof (induction arbitrary: t' rule: reaches.induct)
  case (reaches_nil s)
  then show ?case by (auto elim: reaches_NilE)
next
  case (reaches_edge s e s' es t)
  from reaches_edge.prems show ?case
  proof (rule reaches_ConsE)
    fix s''
    assume "(s, e, s'') \<in> set (edges r)" and rest: "reaches r s'' es t'"
    with reaches_edge.hyps(1) have "s'' = s'" by (auto dest: edges_functional)
    with rest show ?thesis by (auto intro: reaches_edge.IH)
  next
    assume "\<forall>s'. (s, e, s') \<notin> set (edges r)"
    with reaches_edge.hyps(1) show ?thesis by blast
  qed
next
  case (reaches_stay s e es t)
  from reaches_stay.prems show ?case
  proof (rule reaches_ConsE)
    fix s''
    assume "(s, e, s'') \<in> set (edges r)"
    with reaches_stay.hyps(1) show ?thesis by blast
  next
    assume "reaches r s es t'"
    then show ?thesis by (rule reaches_stay.IH)
  qed
qed

text \<open>
  C9.  The state machine is deterministic: a state and an event have at most one
  successor, and two runs that start in \<open>created\<close> and receive the same events end in
  the same state.
\<close>

theorem run_state_machine_deterministic:
  "((s, e, t) \<in> set (edges resumable) \<and> (s, e, t') \<in> set (edges resumable) \<longrightarrow> t = t')
   \<and> (reaches resumable initial es u \<and> reaches resumable initial es u' \<longrightarrow> u = u')"
  by (blast dest: edges_functional reaches_deterministic)

theorem run_state_machine_deterministic_witness:
  "(InProgress, CancelRequest, Cancelling) \<in> set (edges False)
   \<and> reaches False initial [Start, Start, CancelRequest] Cancelling"
proof -
  have e1: "(Created, Start, InProgress) \<in> set (edges False)"
    and e2: "\<forall>s'. (InProgress, Start, s') \<notin> set (edges False)"
    and e3: "(InProgress, CancelRequest, Cancelling) \<in> set (edges False)"
    by (simp_all add: edges_def diagram_def continuation_def)
  have r: "reaches False initial [Start, Start, CancelRequest] Cancelling"
    unfolding initial_def
    by (rule reaches_edge [OF e1], rule reaches_stay [OF e2], rule reaches_edge [OF e3],
        rule reaches_nil)
  have "Cancelling = Cancelling"
    using run_state_machine_deterministic
      [where s = InProgress and e = CancelRequest and t = Cancelling and t' = Cancelling
        and resumable = False and es = "[Start, Start, CancelRequest]"
        and u = Cancelling and u' = Cancelling] e3 r
    by blast
  with e3 r show ?thesis by blast
qed

text \<open>
  C3.  The state \<open>cancelled\<close> is entered only from \<open>cancelling\<close>, by the confirmation of
  the cancel.  A cancel request leads to \<open>cancelling\<close> and never to \<open>cancelled\<close>: there is
  no edge from \<open>in-progress\<close> or \<open>awaiting\<close> to \<open>cancelled\<close>, and in every run from
  \<open>created\<close> the state before a \<open>cancelled\<close> is \<open>cancelling\<close> (or \<open>cancelled\<close> itself, when
  an event moved nothing).
\<close>

theorem cancelled_only_through_cancelling:
  "((s, e, Cancelled) \<in> set (edges resumable) \<longrightarrow> s = Cancelling \<and> e = CancelConfirmed)
   \<and> ((s, CancelRequest, t) \<in> set (edges resumable) \<longrightarrow> t = Cancelling)
   \<and> (feed resumable s CancelRequest = Cancelled \<longrightarrow> s = Cancelled)
   \<and> (\<forall>p \<in> set (zip (trace resumable initial es) (tl (trace resumable initial es))).
         snd p = Cancelled \<longrightarrow> fst p = Cancelling \<or> fst p = Cancelled)"
proof (intro conjI)
  show into: "(s, e, Cancelled) \<in> set (edges resumable) \<longrightarrow> s = Cancelling \<and> e = CancelConfirmed"
    for s e
    by (auto simp: edges_def diagram_def continuation_def split: if_splits)
  show req: "(s, CancelRequest, t) \<in> set (edges resumable) \<longrightarrow> t = Cancelling"
    by (auto simp: edges_def diagram_def continuation_def split: if_splits)
  show "feed resumable s CancelRequest = Cancelled \<longrightarrow> s = Cancelled"
    using feed_cases [of resumable s CancelRequest] into [of s CancelRequest] by auto
  show "\<forall>p \<in> set (zip (trace resumable initial es) (tl (trace resumable initial es))).
         snd p = Cancelled \<longrightarrow> fst p = Cancelling \<or> fst p = Cancelled"
  proof (intro ballI impI)
    fix p
    assume mem: "p \<in> set (zip (trace resumable initial es) (tl (trace resumable initial es)))"
      and c: "snd p = Cancelled"
    obtain a b where p: "p = (a, b)" by (cases p)
    from mem p have "(a, b)
        \<in> set (zip (trace resumable initial es) (tl (trace resumable initial es)))"
      by simp
    from trace_steps [OF this] c p into [of a] show "fst p = Cancelling \<or> fst p = Cancelled"
      by auto
  qed
qed

theorem cancelled_only_through_cancelling_witness:
  "trace False initial [Start, CancelRequest, CancelConfirmed]
     = [Created, InProgress, Cancelling, Cancelled]
   \<and> (Cancelling, CancelConfirmed, Cancelled) \<in> set (edges False)
   \<and> (InProgress, CancelRequest, Cancelling) \<in> set (edges False)
   \<and> feed False Cancelled CancelRequest = Cancelled"
proof -
  let ?es = "[Start, CancelRequest, CancelConfirmed]"
  have t: "trace False initial ?es = [Created, InProgress, Cancelling, Cancelled]"
    by (simp add: initial_def feed_def next_state_def edges_def diagram_def continuation_def)
  have e1: "(Cancelling, CancelConfirmed, Cancelled) \<in> set (edges False)"
    and e2: "(InProgress, CancelRequest, Cancelling) \<in> set (edges False)"
    by (simp_all add: edges_def diagram_def continuation_def)
  have f: "feed False Cancelled CancelRequest = Cancelled"
    by (simp add: feed_def next_state_def edges_def diagram_def continuation_def)
  have mem: "(Cancelling, Cancelled)
      \<in> set (zip (trace False initial ?es) (tl (trace False initial ?es)))"
    unfolding t by simp
  have "Cancelling = Cancelling \<and> CancelConfirmed = CancelConfirmed"
    using cancelled_only_through_cancelling
      [where s = Cancelling and e = CancelConfirmed and resumable = False
        and t = Cancelling and es = ?es] e1
    by blast
  with t e1 e2 f show ?thesis by blast
qed

lemma feed_created:
  "feed r Created e = Created \<or> feed r Created e = InProgress"
  by (cases e; cases r)
    (simp_all add: feed_def next_state_def edges_def diagram_def continuation_def)

lemma trace_stuck_in_created:
  "InProgress \<notin> set (trace r Created es) \<Longrightarrow> set (trace r Created es) \<subseteq> {Created}"
proof (induction es)
  case Nil
  then show ?case by simp
next
  case (Cons e es)
  from Cons.prems have "feed r Created e \<noteq> InProgress"
    by (cases es) auto
  with feed_created [of r e] have "feed r Created e = Created" by simp
  with Cons show ?case by simp
qed

lemma last_trace_mem: "last (trace r s es) \<in> set (trace r s es)"
  by (rule last_in_set) (rule trace_nonempty)

text \<open>
  C8.  The only edge out of \<open>created\<close> is \<open>start\<close>, to \<open>in-progress\<close>; so a run that
  has reached a terminal state was in \<open>in-progress\<close> before (for an agent without
  continuation as for one with it).
\<close>

theorem terminal_only_after_in_progress:
  "((Created, e, t) \<in> set (edges resumable) \<longrightarrow> e = Start \<and> t = InProgress)
   \<and> (terminal (last (trace resumable initial es))
        \<longrightarrow> InProgress \<in> set (butlast (trace resumable initial es)))"
proof (intro conjI impI)
  assume "(Created, e, t) \<in> set (edges resumable)"
  then show "e = Start" and "t = InProgress"
    by (auto simp: edges_def diagram_def continuation_def split: if_splits)
next
  let ?T = "trace resumable initial es"
  assume fin: "terminal (last ?T)"
  have "InProgress \<in> set ?T"
  proof (rule ccontr)
    assume "InProgress \<notin> set ?T"
    then have "set ?T \<subseteq> {Created}"
      unfolding initial_def by (rule trace_stuck_in_created)
    with last_trace_mem [of resumable initial es] have "last ?T = Created" by auto
    with fin show False by simp
  qed
  moreover have "?T = butlast ?T @ [last ?T]"
    using trace_nonempty [of resumable initial es] by simp
  ultimately have "InProgress \<in> set (butlast ?T) \<or> InProgress = last ?T"
    by (metis Un_iff empty_iff insert_iff list.set(1) list.simps(15) set_append)
  with fin show "InProgress \<in> set (butlast ?T)" by auto
qed

theorem terminal_only_after_in_progress_witness:
  "(Created, Start, InProgress) \<in> set (edges False)
   \<and> terminal (last (trace False initial [Complete, Start, Error]))
   \<and> InProgress \<in> set (butlast (trace False initial [Complete, Start, Error]))"
proof -
  have e: "(Created, Start, InProgress) \<in> set (edges False)"
    by (simp add: edges_def diagram_def continuation_def)
  have t: "terminal (last (trace False initial [Complete, Start, Error]))"
    by (simp add: initial_def feed_def next_state_def edges_def diagram_def continuation_def)
  have "InProgress \<in> set (butlast (trace False initial [Complete, Start, Error]))"
    using terminal_only_after_in_progress
      [where e = Start and t = InProgress and resumable = False
        and es = "[Complete, Start, Error]"] t
    by blast
  with e t show ?thesis by (intro conjI)
qed

section \<open>Properties of the controller\<close>

lemma transition_edge:
  "transition ok s e = Inr t \<Longrightarrow> (s, e, t) \<in> set (spec_edges ok)"
  by (cases s; cases e)
    (auto simp: transition_def spec_edges_def spec_table_def spec_continue_from_def
      split: if_splits)

lemma not_listed_rejected:
  "\<not> listed s e \<Longrightarrow> transition ok s e = Inl InvalidTransition"
  by (cases s; cases e)
    (simp_all add: listed_def transition_def spec_edges_def spec_table_def
      spec_continue_from_def)

lemma continue_terminal:
  "terminal s \<Longrightarrow>
    transition ok s Continue = (if ok then Inr InProgress else Inl RunNotResumable)"
  by (cases s) (simp_all add: transition_def spec_continue_from_def)

lemmas installation_defs = installation_def echo_def needs_name_def notebook_def

lemmas controller_defs =
  create_def get_def resume_def cancel_def signal_def lookup_def apply_action_def
  fire_def transition_def supports_continuation_def expiry_on_entry_def continuable_def
  is_expired_def force_failed_def spec_table_def spec_continue_from_def sweep_def
  restart_def

lemma echo_done_store: "store echo_done 0 = Some echo_done_run"
  by (simp add: echo_done_def echo_done_run_def installation_defs controller_defs)

lemma echo_done_agents: "agents echo_done = agents installation"
  by (simp add: echo_done_def installation_defs controller_defs)

lemma notebook_waiting_store: "store notebook_waiting 0 = Some notebook_waiting_run"
  by (simp add: notebook_waiting_def notebook_waiting_run_def installation_defs controller_defs)

text \<open>
  C2.  An event that the table does not list for the current state is rejected with
  \<open>InvalidTransition\<close>: by the state machine, by the controller applying it to a Run
  (no new record is produced), and by the system, where the error is returned to the
  caller together with the system as it was, the stored Run included.
\<close>

theorem unlisted_event_rejected:
  "\<not> listed (state r) (event_of a) \<Longrightarrow>
     transition supported (state r) (event_of a) = Inl InvalidTransition
     \<and> fire lifetime supported now a r = Inl InvalidTransition
     \<and> apply_action now rid a r sys = (Inl InvalidTransition, sys)
     \<and> (store sys rid = Some r \<longrightarrow> signal now rid a sys = (Inl InvalidTransition, sys))"
  by (simp add: not_listed_rejected fire_def apply_action_def signal_def)

theorem unlisted_event_rejected_witness:
  "\<not> listed Completed CancelConfirmed
   \<and> store echo_done 0 = Some echo_done_run
   \<and> state echo_done_run = Completed
   \<and> signal 2 0 DoCancelConfirmed echo_done = (Inl InvalidTransition, echo_done)"
proof -
  have st: "state echo_done_run = Completed"
    by (simp add: echo_done_run_def)
  have h: "\<not> listed (state echo_done_run) (event_of DoCancelConfirmed)"
    by (simp add: st listed_def spec_edges_def spec_table_def spec_continue_from_def)
  from unlisted_event_rejected [OF h, where rid = 0 and sys = echo_done and now = 2]
    echo_done_store
  have "signal 2 0 DoCancelConfirmed echo_done = (Inl InvalidTransition, echo_done)"
    by blast
  with h st echo_done_store show ?thesis by simp
qed

text \<open>
  C7.  On a run in a terminal state the \<open>continue\<close> event yields \<open>in-progress\<close> only
  when the owning agent declares itself resumable; when it does not, whatever its
  statefulness, the attempt fails with \<open>RunNotResumable\<close> and nothing is stored: the
  run stays in its terminal state.
\<close>

theorem continuation_needs_resumable_agent:
  "terminal (state r) \<Longrightarrow>
     (\<forall>t. transition supported (state r) Continue = Inr t \<longrightarrow> supported \<and> t = InProgress)
     \<and> (supported \<longrightarrow> transition supported (state r) Continue = Inr InProgress)
     \<and> (\<not> supported \<longrightarrow> transition supported (state r) Continue = Inl RunNotResumable)
     \<and> (\<not> supports_continuation sys r \<longrightarrow>
          apply_action now rid (DoContinue inp) r sys = (Inl RunNotResumable, sys))"
  by (simp add: continue_terminal fire_def apply_action_def)

theorem continuation_needs_resumable_agent_witness:
  "terminal (state echo_done_run)
   \<and> statefulness echo_done_run = Stateless
   \<and> transition False (state echo_done_run) Continue = Inl RunNotResumable
   \<and> transition True (state echo_done_run) Continue = Inr InProgress
   \<and> apply_action 2 0 (DoContinue ''again'') echo_done_run echo_done
       = (Inl RunNotResumable, echo_done)"
proof -
  have h: "terminal (state echo_done_run)"
    by (simp add: echo_done_run_def)
  have sf: "statefulness echo_done_run = Stateless"
    by (simp add: echo_done_run_def)
  have no: "\<not> supports_continuation echo_done echo_done_run"
    by (simp add: supports_continuation_def echo_done_agents installation_defs
        echo_done_run_def)
  have a: "transition False (state echo_done_run) Continue = Inl RunNotResumable"
    using continuation_needs_resumable_agent [OF h, where supported = False] by blast
  have b: "transition True (state echo_done_run) Continue = Inr InProgress"
    using continuation_needs_resumable_agent [OF h, where supported = True] by blast
  have c: "apply_action 2 0 (DoContinue ''again'') echo_done_run echo_done
       = (Inl RunNotResumable, echo_done)"
    using continuation_needs_resumable_agent [OF h, where sys = echo_done] no by blast
  from h sf a b c show ?thesis by (intro conjI)
qed

lemma lookup_expired:
  "store sys rid = Some r \<Longrightarrow> is_expired now r \<Longrightarrow>
    lookup now rid sys =
      (Inl Expired, sys\<lparr>store := (store sys)(rid \<mapsto> force_failed now Expired r)\<rparr>)"
  by (simp add: lookup_def)

text \<open>
  C4.  For a non-serializable run whose \<open>expiresAt\<close> has passed, \<open>get\<close>, \<open>resume\<close> and
  \<open>cancel\<close> all fail with \<open>Expired\<close>, in any state of the system (no sweep is needed),
  and each of them leaves the run forced to \<open>failed\<close>; the run is not returned.
\<close>

theorem expired_run_lookup_fails:
  "store sys rid = Some r \<Longrightarrow> statefulness r = NonSerializable \<Longrightarrow>
   expiresAt r = Some t \<Longrightarrow> t < now \<Longrightarrow>
     fst (get now rid sys) = Inl Expired
     \<and> fst (resume now rid inp sys) = Inl Expired
     \<and> fst (cancel now rid sys) = Inl Expired
     \<and> store (snd (get now rid sys)) rid = Some (force_failed now Expired r)
     \<and> store (snd (resume now rid inp sys)) rid = Some (force_failed now Expired r)
     \<and> store (snd (cancel now rid sys)) rid = Some (force_failed now Expired r)"
proof -
  assume a: "store sys rid = Some r" "statefulness r = NonSerializable"
    "expiresAt r = Some t" "t < now"
  then have "is_expired now r"
    by (simp add: is_expired_def)
  with a(1) have "lookup now rid sys =
      (Inl Expired, sys\<lparr>store := (store sys)(rid \<mapsto> force_failed now Expired r)\<rparr>)"
    by (rule lookup_expired)
  then show ?thesis
    by (simp add: get_def resume_def cancel_def)
qed

theorem expired_run_lookup_fails_witness:
  "store notebook_waiting 0 = Some notebook_waiting_run
   \<and> fst (get 3 0 notebook_waiting) = Inl Expired
   \<and> fst (resume 3 0 ''Ann'' notebook_waiting) = Inl Expired
   \<and> fst (cancel 3 0 notebook_waiting) = Inl Expired
   \<and> map_option state (store (snd (get 3 0 notebook_waiting)) 0) = Some Failed
   \<and> map_option error (store (snd (get 3 0 notebook_waiting)) 0) = Some (Some Expired)"
proof -
  have sf: "statefulness notebook_waiting_run = NonSerializable"
    and ex: "expiresAt notebook_waiting_run = Some 2"
    by (simp_all add: notebook_waiting_run_def)
  have lt: "(2::nat) < 3" by simp
  note th = expired_run_lookup_fails [OF notebook_waiting_store sf ex lt, of "''Ann''"]
  have ff: "state (force_failed 3 Expired notebook_waiting_run) = Failed"
    "error (force_failed 3 Expired notebook_waiting_run) = Some Expired"
    by (simp_all add: force_failed_def notebook_waiting_run_def)
  from th ff notebook_waiting_store show ?thesis by simp
qed


lemma fire_consistent:
  "consistent r \<Longrightarrow> fire l ok now a r = Inr r' \<Longrightarrow> consistent r'"
  by (cases a; cases "state r")
    (auto simp: fire_def transition_def consistent_def spec_table_def spec_continue_from_def
      split: if_splits)

lemma force_failed_consistent:
  "consistent r \<Longrightarrow> consistent (force_failed now k r)"
  by (cases "state r") (auto simp: force_failed_def consistent_def)

lemma all_consistent_update:
  "all_consistent sys \<Longrightarrow> consistent r \<Longrightarrow>
    all_consistent (sys\<lparr>store := (store sys)(rid \<mapsto> r)\<rparr>)"
  by (simp add: all_consistent_def)

lemma all_consistent_next_id:
  "all_consistent (sys\<lparr>next_id := n\<rparr>) = all_consistent sys"
  by (simp add: all_consistent_def)

lemma apply_action_consistent:
  "all_consistent sys \<Longrightarrow> consistent r \<Longrightarrow>
    all_consistent (snd (apply_action now rid a r sys))"
  by (auto simp: apply_action_def split: sum.splits
      intro: all_consistent_update fire_consistent)

lemma lookup_consistent:
  "all_consistent sys \<Longrightarrow> all_consistent (snd (lookup now rid sys))"
  by (auto simp: lookup_def all_consistent_def force_failed_consistent split: option.splits)

lemma lookup_found_consistent:
  "all_consistent sys \<Longrightarrow> lookup now rid sys = (Inr r, sys') \<Longrightarrow> consistent r"
  by (auto simp: lookup_def all_consistent_def split: option.splits if_splits)

lemma create_consistent:
  "all_consistent sys \<Longrightarrow> all_consistent (snd (create now name inp sys))"
  by (auto simp: create_def consistent_def all_consistent_next_id split: option.splits
      intro!: apply_action_consistent)

lemma resume_consistent:
  "all_consistent sys \<Longrightarrow> all_consistent (snd (resume now rid inp sys))"
proof -
  assume a: "all_consistent sys"
  obtain res sys' where l: "lookup now rid sys = (res, sys')"
    by (cases "lookup now rid sys")
  from a have s': "all_consistent sys'"
    using lookup_consistent [of sys now rid] l by simp
  show ?thesis
  proof (cases res)
    case (Inl err)
    with l s' show ?thesis by (simp add: resume_def)
  next
    case (Inr r)
    with a l have "consistent r" by (auto dest: lookup_found_consistent)
    with l s' Inr show ?thesis
      by (simp add: resume_def apply_action_consistent)
  qed
qed

lemma cancel_consistent:
  "all_consistent sys \<Longrightarrow> all_consistent (snd (cancel now rid sys))"
proof -
  assume a: "all_consistent sys"
  obtain res sys' where l: "lookup now rid sys = (res, sys')"
    by (cases "lookup now rid sys")
  from a have s': "all_consistent sys'"
    using lookup_consistent [of sys now rid] l by simp
  show ?thesis
  proof (cases res)
    case (Inl err)
    with l s' show ?thesis by (simp add: cancel_def)
  next
    case (Inr r)
    with a l have "consistent r" by (auto dest: lookup_found_consistent)
    with l s' Inr show ?thesis
      by (simp add: cancel_def apply_action_consistent)
  qed
qed

lemma signal_consistent:
  "all_consistent sys \<Longrightarrow> all_consistent (snd (signal now rid a sys))"
proof (cases "store sys rid")
  case None
  assume "all_consistent sys"
  with None show ?thesis by (simp add: signal_def)
next
  case (Some r)
  assume a: "all_consistent sys"
  with Some have "consistent r" by (simp add: all_consistent_def)
  with a Some show ?thesis by (simp add: signal_def apply_action_consistent)
qed

lemma sweep_consistent:
  "all_consistent sys \<Longrightarrow> all_consistent (sweep now sys)"
  by (auto simp: sweep_def all_consistent_def force_failed_consistent)

lemma restart_consistent:
  "all_consistent sys \<Longrightarrow> all_consistent (restart now sys)"
  by (auto simp: restart_def all_consistent_def force_failed_consistent)

lemma perform_consistent:
  "all_consistent sys \<Longrightarrow> all_consistent (perform now op sys)"
  by (cases op)
    (simp_all add: create_consistent resume_consistent cancel_consistent get_def
      lookup_consistent signal_consistent sweep_consistent restart_consistent)

lemma perform_all_consistent:
  "all_consistent sys \<Longrightarrow> all_consistent (perform_all ops sys)"
  by (induction ops arbitrary: sys) (auto simp: perform_consistent)

text \<open>
  C6.  Every operation preserves the consistency of the stored Runs: whatever sequence
  of requests, agent signals, sweeps and restarts is performed on a system whose Runs
  are consistent (an empty store, for one), every Run stored afterwards has
  \<open>awaitingRequest\<close> set exactly in state \<open>awaiting\<close>, \<open>error\<close> set exactly in state
  \<open>failed\<close>, and \<open>output\<close> set only in state \<open>completed\<close>.
\<close>

theorem operations_preserve_consistency:
  "(\<forall>rid r. store sys rid = Some r \<longrightarrow> consistent r) \<Longrightarrow>
   (\<forall>rid r. store (perform_all ops sys) rid = Some r \<longrightarrow>
      (awaitingRequest r \<noteq> None) = (state r = Awaiting)
      \<and> (error r \<noteq> None) = (state r = Failed)
      \<and> (output r \<noteq> None \<longrightarrow> state r = Completed))"
proof -
  assume "\<forall>rid r. store sys rid = Some r \<longrightarrow> consistent r"
  then have "all_consistent sys" by (simp add: all_consistent_def)
  then have after: "all_consistent (perform_all ops sys)" by (rule perform_all_consistent)
  show ?thesis
  proof (intro allI impI)
    fix rid r
    assume "store (perform_all ops sys) rid = Some r"
    with after have "consistent r" by (simp add: all_consistent_def)
    then show "(awaitingRequest r \<noteq> None) = (state r = Awaiting)
      \<and> (error r \<noteq> None) = (state r = Failed)
      \<and> (output r \<noteq> None \<longrightarrow> state r = Completed)"
      by (auto simp: consistent_def)
  qed
qed

theorem operations_preserve_consistency_witness:
  "store installation = Map.empty
   \<and> store notebook_waiting 0 = Some notebook_waiting_run
   \<and> awaitingRequest notebook_waiting_run = Some ''name''
   \<and> state notebook_waiting_run = Awaiting
   \<and> (error notebook_waiting_run \<noteq> None) = (state notebook_waiting_run = Failed)
   \<and> output notebook_waiting_run = None"
proof -
  have empty: "store installation = Map.empty"
    by (simp add: installation_def)
  then have h: "\<forall>rid r. store installation rid = Some r \<longrightarrow> consistent r"
    by simp
  have "(awaitingRequest notebook_waiting_run \<noteq> None) = (state notebook_waiting_run = Awaiting)
      \<and> (error notebook_waiting_run \<noteq> None) = (state notebook_waiting_run = Failed)
      \<and> (output notebook_waiting_run \<noteq> None \<longrightarrow> state notebook_waiting_run = Completed)"
    using operations_preserve_consistency
      [OF h, of "[(0, Create ''notebook'' ''x''), (1, NeedsInput 0 ''name'')]"]
      notebook_waiting_store
    unfolding notebook_waiting_def by blast
  moreover have "awaitingRequest notebook_waiting_run = Some ''name''"
    "state notebook_waiting_run = Awaiting" "output notebook_waiting_run = None"
    by (simp_all add: notebook_waiting_run_def)
  ultimately show ?thesis using empty notebook_waiting_store by simp
qed

















lemma consistent_cancel_clears_request:
  "consistent r \<Longrightarrow> consistent r' \<Longrightarrow> state r = Awaiting \<Longrightarrow> state r' = Cancelling
    \<Longrightarrow> awaitingRequest r' \<noteq> awaitingRequest r"
  by (auto simp: consistent_def)





















lemma serve_all_admitted:
  "serve_all ops sys = perform_all (admitted ops sys) sys"
  by (induction ops sys rule: admitted.induct) (simp_all add: serve_def)



end
